theory Spec2Isabelle
  imports Main "HOL-Library.Sublist"
begin

section \<open>The query store of pinia-colada\<close>

text \<open>
  A shallow embedding of the query store (\<^verbatim>\<open>query-store.ts\<close>): the query entry, the
  operations \<^verbatim>\<open>refresh\<close>, \<^verbatim>\<open>refetch\<close>, \<^verbatim>\<open>setEntryData\<close>, \<^verbatim>\<open>invalidateEntry\<close> and
  \<^verbatim>\<open>ensureEntry\<close>, and the serialisation of the entry registry.

  Conventions.
  \<^item> \<^verbatim>\<open>TResult | undefined\<close> is \<open>'d option\<close> (\<open>None\<close> is \<^verbatim>\<open>undefined\<close>). A query may
    resolve with \<^verbatim>\<open>undefined\<close>, so what it resolves with is a \<open>'d option\<close> too.
  \<^item> An error is any JavaScript value: what a query rejects with is not typed. The store
    tests errors for truthiness only (\<^verbatim>\<open>error ? .. : ..\<close>, \<^verbatim>\<open>entry.error.value || ..\<close>), so
    an error is a value of \<open>'e error_value\<close>: \<open>Nullish\<close> (\<^verbatim>\<open>null\<close> or \<^verbatim>\<open>undefined\<close>,
    which no test of the store tells apart and which the default \<^verbatim>\<open>error = null\<close> of
    \<^verbatim>\<open>createQueryEntry\<close> both makes \<^verbatim>\<open>null\<close>), a value that is not null and falsy (\<^verbatim>\<open>0\<close>, \<^verbatim>\<open>''\<close>, \<^verbatim>\<open>false\<close>, \<^verbatim>\<open>NaN\<close>), or a truthy value (an
    \<^verbatim>\<open>Error\<close> object, say).
  \<^item> Times are integers (milliseconds); every operation receives the value that
    \<^verbatim>\<open>Date.now()\<close> returns while it runs as the argument \<open>now\<close>.
  \<^item> Objects are mutated in place in the source; the model passes the entry and returns
    the updated one.
  \<^item> The descriptor \<^verbatim>\<open>{ refreshCall, when }\<close> that \<^verbatim>\<open>refetch\<close> stores in \<^verbatim>\<open>entry.pending\<close> is
    compared by object identity (\<^verbatim>\<open>pendingCall === entry.pending\<close>). The identity of a
    descriptor is a natural number taken from an allocation counter, \<open>next_id\<close>; the
    promise \<^verbatim>\<open>refreshCall\<close> it holds is named by the same number.
  \<^item> \<^verbatim>\<open>options.query\<close> is an opaque asynchronous operation. Calling it is recorded in
    the log \<open>calls\<close>; how its promise settles is an input of the model (\<open>settle\<close>).
  \<^item> \<^verbatim>\<open>process.env.NODE_ENV === 'production'\<close> is the parameter \<open>production\<close>.
\<close>

subsection \<open>Data\<close>

datatype UseQueryStatus = Pending | Loading | Error | Success

datatype 'e error_value = Nullish | Falsy 'e | Truthy 'e

fun truthy :: "'e error_value \<Rightarrow> bool" where
  "truthy (Truthy x) = True"
| "truthy (Falsy x) = False"
| "truthy Nullish = False"

record ('k, 'd, 'q) UseQueryOptions =
  key :: "'k list"
  query :: 'q
  staleTime :: int
  initialData :: "'d option"

record pending_call =
  refreshCall :: nat
  pending_when :: int

record ('k, 'd, 'e, 'q) UseQueryEntry =
  data :: "'d option"
  error :: "'e error_value"
  status :: UseQueryStatus
  "when" :: int
  pending :: "pending_call option"
  options :: "('k, 'd, 'q) UseQueryOptions option"

definition isPending :: "('k, 'd, 'e, 'q) UseQueryEntry \<Rightarrow> bool" where
  "isPending entry = (data entry = None)"

definition isFetching :: "('k, 'd, 'e, 'q) UseQueryEntry \<Rightarrow> bool" where
  "isFetching entry = (status entry = Loading)"

text \<open>
  \<^verbatim>\<open>createQueryEntry(initialData?, error = null, when = 0)\<close>. The entry has no
  \<^verbatim>\<open>options\<close> property yet.
\<close>

definition createQueryEntry ::
  "'d option \<Rightarrow> 'e error_value \<Rightarrow> int \<Rightarrow> ('k, 'd, 'e, 'q) UseQueryEntry" where
  "createQueryEntry initial err whn =
     \<lparr> data = initial,
       error = err,
       status = (if truthy err then Error
                 else if initial \<noteq> None then Success else Pending),
       when = whn,
       pending = None,
       options = None \<rparr>"

text \<open>The allocation counter and the log of the calls of \<^verbatim>\<open>options.query()\<close>.\<close>

record 'q world =
  next_id :: nat
  calls :: "'q list"

text \<open>
  What a call of an \<^verbatim>\<open>async\<close> function gives its caller once its synchronous part
  has run: a promise that is already rejected (a \<^verbatim>\<open>throw\<close> before the first \<^verbatim>\<open>await\<close>),
  a promise that is already resolved, or a promise that waits for the promise
  \<^verbatim>\<open>refreshCall\<close> of an operation.
\<close>

datatype 'e failure = ConfigError | TypeError | Thrown 'e

datatype ('d, 'e) reply = Rejects "'e error_value failure" | Resolves "'d option" | Awaits nat

text \<open>How a promise settles.\<close>

datatype ('a, 'e) outcome = Fulfilled 'a | Rejected 'e

subsection \<open>refetch and refresh\<close>

definition isExpired :: "int \<Rightarrow> int \<Rightarrow> int \<Rightarrow> bool" where
  "isExpired now lastRefresh stale = (now > lastRefresh + stale)"

text \<open>
  The synchronous part of \<^verbatim>\<open>refetch\<close>, up to \<^verbatim>\<open>await pendingCall.refreshCall\<close>. With the
  guard compiled out (production) and no options, \<^verbatim>\<open>entry.options!.key\<close> reads a property
  of \<^verbatim>\<open>undefined\<close>, a \<^verbatim>\<open>TypeError\<close>, before the entry is touched.
\<close>

definition refetch ::
  "bool \<Rightarrow> int \<Rightarrow> ('k, 'd, 'e, 'q) UseQueryEntry \<Rightarrow> 'q world \<Rightarrow>
   ('d, 'e) reply \<times> ('k, 'd, 'e, 'q) UseQueryEntry \<times> 'q world" where
  "refetch production now entry w =
     (if \<not> production \<and> options entry = None then (Rejects ConfigError, entry, w)
      else case options entry of
        None \<Rightarrow> (Rejects TypeError, entry, w)
      | Some opts \<Rightarrow>
          (let pendingCall = \<lparr> refreshCall = next_id w, pending_when = now \<rparr>
           in (Awaits (refreshCall pendingCall),
               entry\<lparr> status := Loading, pending := Some pendingCall \<rparr>,
               w\<lparr> next_id := Suc (next_id w), calls := calls w @ [query opts] \<rparr>)))"

text \<open>
  The synchronous part of \<^verbatim>\<open>refresh\<close>. When it awaits \<^verbatim>\<open>refetch(entry)\<close>, the promise of
  \<^verbatim>\<open>refetch\<close> in turn awaits the new \<^verbatim>\<open>refreshCall\<close>, so the reply of \<^verbatim>\<open>refetch\<close> is the
  reply of \<^verbatim>\<open>refresh\<close>.
\<close>

definition refresh ::
  "bool \<Rightarrow> int \<Rightarrow> ('k, 'd, 'e, 'q) UseQueryEntry \<Rightarrow> 'q world \<Rightarrow>
   ('d, 'e) reply \<times> ('k, 'd, 'e, 'q) UseQueryEntry \<times> 'q world" where
  "refresh production now entry w =
     (if \<not> production \<and> options entry = None then (Rejects ConfigError, entry, w)
      else case options entry of
        None \<Rightarrow> (Rejects TypeError, entry, w)
      | Some opts \<Rightarrow>
          if truthy (error entry) \<or> isExpired now (when entry) (staleTime opts)
          then (case pending entry of
                  Some p \<Rightarrow> (Awaits (refreshCall p), entry, w)
                | None \<Rightarrow> refetch production now entry w)
          else (Resolves (data entry), entry, w))"

text \<open>
  The handlers that \<^verbatim>\<open>refetch\<close> chains on the promise of \<^verbatim>\<open>query()\<close>, for the operation
  whose descriptor is \<open>t\<close>. Each takes how the promise before it settled and returns the
  entry and how its own promise settles: \<^verbatim>\<open>.then(f)\<close> runs \<open>f\<close> on fulfilment and passes
  a rejection on, \<^verbatim>\<open>.catch(f)\<close> runs \<open>f\<close> on rejection, and its promise is then fulfilled
  (the handler returns normally), \<^verbatim>\<open>.finally(f)\<close> runs \<open>f\<close> and passes the settlement on.
\<close>

definition is_current :: "nat \<Rightarrow> ('k, 'd, 'e, 'q) UseQueryEntry \<Rightarrow> bool" where
  "is_current t entry = (case pending entry of None \<Rightarrow> False | Some p \<Rightarrow> refreshCall p = t)"

definition on_then ::
  "nat \<Rightarrow> ('d option, 'e error_value) outcome \<Rightarrow> ('k, 'd, 'e, 'q) UseQueryEntry \<Rightarrow>
   ('k, 'd, 'e, 'q) UseQueryEntry \<times> (unit, 'e error_value) outcome" where
  "on_then t settled entry =
     (case settled of
        Fulfilled d \<Rightarrow>
          ((if is_current t entry
            then entry\<lparr> error := Nullish, data := d, status := Success \<rparr>
            else entry), Fulfilled ())
      | Rejected x \<Rightarrow> (entry, Rejected x))"

definition on_catch ::
  "nat \<Rightarrow> (unit, 'e error_value) outcome \<Rightarrow> ('k, 'd, 'e, 'q) UseQueryEntry \<Rightarrow>
   ('k, 'd, 'e, 'q) UseQueryEntry \<times> (unit, 'e error_value) outcome" where
  "on_catch t settled entry =
     (case settled of
        Fulfilled u \<Rightarrow> (entry, Fulfilled u)
      | Rejected x \<Rightarrow>
          ((if is_current t entry
            then entry\<lparr> error := x, status := Error \<rparr>
            else entry), Fulfilled ()))"

definition on_finally ::
  "nat \<Rightarrow> int \<Rightarrow> (unit, 'e error_value) outcome \<Rightarrow> ('k, 'd, 'e, 'q) UseQueryEntry \<Rightarrow>
   ('k, 'd, 'e, 'q) UseQueryEntry \<times> (unit, 'e error_value) outcome" where
  "on_finally t now settled entry =
     ((if is_current t entry then entry\<lparr> pending := None, when := now \<rparr> else entry),
      settled)"

text \<open>
  The promise of \<^verbatim>\<open>query()\<close> of operation \<open>t\<close> settles at time \<open>now\<close>: the three handlers
  run one after the other. The result is the entry and the settlement of \<^verbatim>\<open>refreshCall\<close>.
\<close>

definition settle ::
  "nat \<Rightarrow> ('d option, 'e error_value) outcome \<Rightarrow> int \<Rightarrow> ('k, 'd, 'e, 'q) UseQueryEntry \<Rightarrow>
   ('k, 'd, 'e, 'q) UseQueryEntry \<times> (unit, 'e error_value) outcome" where
  "settle t settled now entry =
     (let (e1, s1) = on_then t settled entry;
          (e2, s2) = on_catch t s1 e1
      in on_finally t now s2 e2)"

text \<open>
  What a caller that awaits \<^verbatim>\<open>refreshCall\<close> gets when it settles: the rest of \<^verbatim>\<open>refetch\<close>
  and of \<^verbatim>\<open>refresh\<close> is \<^verbatim>\<open>return entry.data.value\<close>, and \<^verbatim>\<open>await\<close> throws what a rejected
  promise was rejected with. The continuation runs right after the handlers.
\<close>

definition resume ::
  "('k, 'd, 'e, 'q) UseQueryEntry \<times> (unit, 'e error_value) outcome \<Rightarrow> ('d, 'e) reply" where
  "resume r = (case snd r of
                 Fulfilled u \<Rightarrow> Resolves (data (fst r))
               | Rejected x \<Rightarrow> Rejects (Thrown x))"

subsection \<open>setEntryData, invalidateEntry and ensureEntry on one entry\<close>

text \<open>
  The second argument of \<^verbatim>\<open>setEntryData\<close> is a value or a function that receives the ref
  \<^verbatim>\<open>entry.data\<close> and may assign it. \<open>setData\<close> is what \<^verbatim>\<open>setEntryData\<close> does to the entry
  it has found.
\<close>

datatype 'd set_arg = Literal "'d option" | Updater "'d option \<Rightarrow> 'd option"

definition setData ::
  "'d set_arg \<Rightarrow> ('k, 'd, 'e, 'q) UseQueryEntry \<Rightarrow> ('k, 'd, 'e, 'q) UseQueryEntry" where
  "setData arg entry =
     (let e1 = (case arg of
                  Updater f \<Rightarrow> entry\<lparr> data := f (data entry) \<rparr>
                | Literal d \<Rightarrow> entry\<lparr> data := d \<rparr>)
      in e1\<lparr> error := Nullish \<rparr>)"

text \<open>
  The body of the loop of \<^verbatim>\<open>invalidateEntry\<close>. The promise of \<^verbatim>\<open>refetch(entry)\<close> is
  dropped; a rejected one does not stop the loop, since an \<^verbatim>\<open>async\<close> function never
  throws to its caller.
\<close>

definition invalidate ::
  "bool \<Rightarrow> bool \<Rightarrow> int \<Rightarrow> ('k, 'd, 'e, 'q) UseQueryEntry \<Rightarrow> 'q world \<Rightarrow>
   ('k, 'd, 'e, 'q) UseQueryEntry \<times> 'q world" where
  "invalidate production shouldRefetch now entry w =
     (let e1 = entry\<lparr> when := 0 \<rparr>
      in if shouldRefetch
         then snd (refetch production now (e1\<lparr> pending := None \<rparr>) w)
         else (e1, w))"

text \<open>The end of \<^verbatim>\<open>ensureEntry\<close>: \<^verbatim>\<open>if (!entry.options) entry.options = options\<close>.\<close>

definition attach_options ::
  "('k, 'd, 'q) UseQueryOptions \<Rightarrow> ('k, 'd, 'e, 'q) UseQueryEntry \<Rightarrow>
   ('k, 'd, 'e, 'q) UseQueryEntry" where
  "attach_options opts entry =
     (if options entry = None then entry\<lparr> options := Some opts \<rparr> else entry)"

subsection \<open>Histories of one entry\<close>

text \<open>
  What can happen to an entry, in any order: a call of \<^verbatim>\<open>refetch\<close> or \<^verbatim>\<open>refresh\<close>, the
  promise of \<^verbatim>\<open>query()\<close> of some operation settling, \<^verbatim>\<open>setEntryData\<close>, \<^verbatim>\<open>invalidateEntry\<close>
  reaching the entry, \<^verbatim>\<open>ensureEntry\<close> finding it.
\<close>

datatype ('k, 'd, 'e, 'q) event =
    CallRefetch int
  | CallRefresh int
  | Settles nat "('d option, 'e error_value) outcome" int
  | SetEntryData "'d set_arg"
  | Invalidate bool int
  | Ensure "('k, 'd, 'q) UseQueryOptions"

fun step ::
  "bool \<Rightarrow> ('k, 'd, 'e, 'q) event \<Rightarrow> ('k, 'd, 'e, 'q) UseQueryEntry \<times> 'q world \<Rightarrow>
   ('k, 'd, 'e, 'q) UseQueryEntry \<times> 'q world" where
  "step production (CallRefetch now) (entry, w) = snd (refetch production now entry w)"
| "step production (CallRefresh now) (entry, w) = snd (refresh production now entry w)"
| "step production (Settles t settled now) (entry, w) = (fst (settle t settled now entry), w)"
| "step production (SetEntryData arg) (entry, w) = (setData arg entry, w)"
| "step production (Invalidate shouldRefetch now) (entry, w) =
     invalidate production shouldRefetch now entry w"
| "step production (Ensure opts) (entry, w) = (attach_options opts entry, w)"

definition run ::
  "bool \<Rightarrow> ('k, 'd, 'e, 'q) event list \<Rightarrow> ('k, 'd, 'e, 'q) UseQueryEntry \<times> 'q world \<Rightarrow>
   ('k, 'd, 'e, 'q) UseQueryEntry \<times> 'q world" where
  "run production evs s = fold (step production) evs s"

text \<open>
  The events of a history in which every query resolves with a defined value or
  rejects with a value that is not null, and in which \<^verbatim>\<open>setEntryData\<close> does not occur.
\<close>

fun ordinary :: "('k, 'd, 'e, 'q) event \<Rightarrow> bool" where
  "ordinary (SetEntryData arg) = False"
| "ordinary (Settles t (Fulfilled d) now) = (d \<noteq> None)"
| "ordinary (Settles t (Rejected x) now) = (x \<noteq> Nullish)"
| "ordinary ev = True"

text \<open>The invariant of the data model that relates the status to the data and the error.\<close>

definition status_inv :: "('k, 'd, 'e, 'q) UseQueryEntry \<Rightarrow> bool" where
  "status_inv entry =
     ((status entry = Success \<longrightarrow> data entry \<noteq> None) \<and>
      (status entry = Error \<longrightarrow> error entry \<noteq> Nullish) \<and>
      (status entry = Pending \<longrightarrow> data entry = None \<and> error entry = Nullish))"

text \<open>
  Every descriptor that the state refers to was allocated after descriptor \<open>a\<close>. This is
  what becomes true of an operation once a later \<^verbatim>\<open>refetch\<close> has replaced its descriptor.
\<close>

definition newer :: "nat \<Rightarrow> ('k, 'd, 'e, 'q) UseQueryEntry \<times> 'q world \<Rightarrow> bool" where
  "newer a s = (a < next_id (snd s) \<and>
                (case pending (fst s) of None \<Rightarrow> True | Some p \<Rightarrow> a < refreshCall p))"

text \<open>
  Operation \<open>t\<close> is still the pending one of the entry, and nothing has been allocated
  and no query called since the world was \<open>w\<close>.
\<close>

definition undisturbed ::
  "nat \<Rightarrow> 'q world \<Rightarrow> ('k, 'd, 'e, 'q) UseQueryEntry \<times> 'q world \<Rightarrow> bool" where
  "undisturbed t w s = (is_current t (fst s) \<and> snd s = w)"

subsection \<open>The entry registry\<close>

text \<open>
  Modelled from the spec: the class \<^verbatim>\<open>TreeMapNode\<close>, which \<^verbatim>\<open>tree-map.ts\<close> defines and of
  which the store reads the properties \<^verbatim>\<open>value\<close> and \<^verbatim>\<open>children\<close>. A node owns an
  optional value and an optional \<^verbatim>\<open>Map\<close> from key segments to child nodes. A \<^verbatim>\<open>Map\<close> keeps its keys in insertion order;
  it is an association list here, read with \<open>map_of\<close> and written with \<open>map_set\<close>, which
  replaces the value of a key that is present where it stands and appends a new key.
\<close>

datatype ('k, 'v) TreeMapNode =
  TreeMapNode (node_value: "'v option") (children: "('k \<times> ('k, 'v) TreeMapNode) list option")

fun map_set :: "('k \<times> 'v) list \<Rightarrow> 'k \<Rightarrow> 'v \<Rightarrow> ('k \<times> 'v) list" where
  "map_set [] k v = [(k, v)]"
| "map_set ((k', v') # m) k v = (if k' = k then (k, v) # m else (k', v') # map_set m k v)"

text \<open>
  Modelled from the spec: the methods of \<^verbatim>\<open>TreeMapNode\<close>, which \<^verbatim>\<open>tree-map.ts\<close> defines.
  \<open>find_node\<close> follows each segment to the node it reaches. \<open>get_value\<close> is the exact
  lookup: the value stored at the node reached, absent if a segment is missing or the
  node has no value. \<open>set_value\<close> creates the nodes that are missing along the path
  and overwrites the value of the last one. \<^verbatim>\<open>new TreeMapNode()\<close> is the node without
  value and children, \<^verbatim>\<open>new TreeMapNode([], value)\<close> sets \<open>value\<close> at the empty path.
\<close>

fun find_node :: "('k, 'v) TreeMapNode \<Rightarrow> 'k list \<Rightarrow> ('k, 'v) TreeMapNode option" where
  "find_node node [] = Some node"
| "find_node node (k # ks) =
     (case children node of
        None \<Rightarrow> None
      | Some m \<Rightarrow> (case map_of m k of None \<Rightarrow> None | Some child \<Rightarrow> find_node child ks))"

definition get_value :: "('k, 'v) TreeMapNode \<Rightarrow> 'k list \<Rightarrow> 'v option" where
  "get_value node ks = (case find_node node ks of None \<Rightarrow> None | Some n \<Rightarrow> node_value n)"

fun set_value :: "('k, 'v) TreeMapNode \<Rightarrow> 'k list \<Rightarrow> 'v \<Rightarrow> ('k, 'v) TreeMapNode" where
  "set_value node [] v = TreeMapNode (Some v) (children node)"
| "set_value node (k # ks) v =
     (let m = (case children node of None \<Rightarrow> [] | Some m \<Rightarrow> m);
          child = (case map_of m k of None \<Rightarrow> TreeMapNode None None | Some c \<Rightarrow> c)
      in TreeMapNode (node_value node) (Some (map_set m k (set_value child ks v))))"


subsection \<open>The store\<close>

text \<open>
  \<^verbatim>\<open>stringifyFlatObject\<close> (\<^verbatim>\<open>utils.ts\<close>) reduces a key segment to its indexable form; it is
  the parameter \<open>stringify\<close>.
\<close>

definition ensureEntry ::
  "('r \<Rightarrow> 'k) \<Rightarrow> 'r list \<Rightarrow> ('k, 'd, 'q) UseQueryOptions \<Rightarrow>
   ('k, ('k, 'd, 'e, 'q) UseQueryEntry) TreeMapNode \<Rightarrow>
   ('k, 'd, 'e, 'q) UseQueryEntry \<times> ('k, ('k, 'd, 'e, 'q) UseQueryEntry) TreeMapNode" where
  "ensureEntry stringify keyRaw opts entryRegistry =
     (let ks = map stringify keyRaw;
          (entry, registry1) =
            (case get_value entryRegistry ks of
               Some e \<Rightarrow> (e, entryRegistry)
             | None \<Rightarrow>
                 (let e = createQueryEntry (initialData opts) Nullish 0
                  in (e, set_value entryRegistry ks e)))
      in if options entry = None
         then (let e' = entry\<lparr> options := Some opts \<rparr> in (e', set_value registry1 ks e'))
         else (entry, registry1))"



definition setEntryData ::
  "('r \<Rightarrow> 'k) \<Rightarrow> 'r list \<Rightarrow> 'd set_arg \<Rightarrow>
   ('k, ('k, 'd, 'e, 'q) UseQueryEntry) TreeMapNode \<Rightarrow>
   ('k, ('k, 'd, 'e, 'q) UseQueryEntry) TreeMapNode" where
  "setEntryData stringify keyRaw arg entryRegistry =
     (let ks = map stringify keyRaw
      in case get_value entryRegistry ks of
           None \<Rightarrow> entryRegistry
         | Some entry \<Rightarrow> set_value entryRegistry ks (setData arg entry))"

subsection \<open>Serialisation and hydration\<close>

text \<open>
  \<^verbatim>\<open>_UseQueryEntryNodeValueSerialized\<close> is the tuple \<^verbatim>\<open>[data, error, when?]\<close>, and
  \<^verbatim>\<open>UseQueryEntryNodeSerialized\<close> the tuple \<^verbatim>\<open>[key, value, children?]\<close>.
\<close>

type_synonym ('d, 'e) UseQueryEntryNodeValueSerialized =
  "'d option \<times> 'e error_value \<times> int option"

datatype ('k, 'd, 'e) UseQueryEntryNodeSerialized =
  Serialized 'k "('d, 'e) UseQueryEntryNodeValueSerialized option"
    "('k, 'd, 'e) UseQueryEntryNodeSerialized list option"

definition queryEntry_toJSON ::
  "('k, 'd, 'e, 'q) UseQueryEntry \<Rightarrow> ('d, 'e) UseQueryEntryNodeValueSerialized" where
  "queryEntry_toJSON entry = (data entry, error entry, Some (when entry))"

text \<open>
  \<^verbatim>\<open>createQueryEntry(...value)\<close>: the tuple is spread over the parameters, and the default
  \<^verbatim>\<open>when = 0\<close> stands in for a missing third component.
\<close>

definition createQueryEntry_spread ::
  "('d, 'e) UseQueryEntryNodeValueSerialized \<Rightarrow> ('k, 'd, 'e, 'q) UseQueryEntry" where
  "createQueryEntry_spread v =
     (case v of (d, err, whn) \<Rightarrow>
        createQueryEntry d err (case whn of None \<Rightarrow> 0 | Some t \<Rightarrow> t))"

text \<open>\<^verbatim>\<open>_serialize\<close> and \<^verbatim>\<open>serialize\<close>.\<close>

fun serialize_node ::
  "'k \<times> ('k, ('k, 'd, 'e, 'q) UseQueryEntry) TreeMapNode \<Rightarrow>
   ('k, 'd, 'e) UseQueryEntryNodeSerialized" where
  "serialize_node (k, TreeMapNode v cs) =
     Serialized k (map_option queryEntry_toJSON v) (map_option (map serialize_node) cs)"

definition serialize ::
  "('k, ('k, 'd, 'e, 'q) UseQueryEntry) TreeMapNode \<Rightarrow>
   ('k, 'd, 'e) UseQueryEntryNodeSerialized list" where
  "serialize root = (case children root of None \<Rightarrow> [] | Some m \<Rightarrow> map serialize_node m)"

text \<open>
  \<^verbatim>\<open>appendToTree\<close> and \<^verbatim>\<open>createTreeMap\<close>. The source puts the new node in the map of its
  parent and then appends the children to it; by value, the node is completed first.
\<close>

fun appendToTree ::
  "('k, ('k, 'd, 'e, 'q) UseQueryEntry) TreeMapNode \<Rightarrow>
   ('k, 'd, 'e) UseQueryEntryNodeSerialized \<Rightarrow>
   ('k, ('k, 'd, 'e, 'q) UseQueryEntry) TreeMapNode" where
  "appendToTree parent (Serialized k v chs) =
     (let m = (case children parent of None \<Rightarrow> [] | Some m \<Rightarrow> m);
          node = TreeMapNode (map_option createQueryEntry_spread v) None;
          node' = (case chs of None \<Rightarrow> node | Some l \<Rightarrow> foldl appendToTree node l)
      in TreeMapNode (node_value parent) (Some (map_set m k node')))"

definition createTreeMap ::
  "('k, 'd, 'e) UseQueryEntryNodeSerialized list \<Rightarrow>
   ('k, ('k, 'd, 'e, 'q) UseQueryEntry) TreeMapNode" where
  "createTreeMap raw = foldl appendToTree (TreeMapNode None None) raw"

text \<open>
  The registries that a \<^verbatim>\<open>Map\<close> can hold and that \<open>set_value\<close> and \<open>appendToTree\<close> build:
  the keys of a map are distinct, and a map exists only once a child is put in it.
\<close>

fun wf_node :: "('k, 'v) TreeMapNode \<Rightarrow> bool" where
  "wf_node (TreeMapNode v cs) =
     (case cs of
        None \<Rightarrow> True
      | Some m \<Rightarrow> m \<noteq> [] \<and> distinct (map fst m) \<and> list_all (\<lambda>kc. wf_node (snd kc)) m)"

text \<open>
  What hydration makes of a node that was serialised: every entry is created anew from
  its serialised value.
\<close>

fun hydrated ::
  "('k, ('k, 'd, 'e, 'q) UseQueryEntry) TreeMapNode \<Rightarrow>
   ('k, ('k, 'd, 'e, 'q) UseQueryEntry) TreeMapNode" where
  "hydrated (TreeMapNode v cs) =
     TreeMapNode (map_option (\<lambda>entry. createQueryEntry_spread (queryEntry_toJSON entry)) v)
       (map_option (map (\<lambda>kc. (fst kc, hydrated (snd kc)))) cs)"

subsection \<open>Example values\<close>

definition ex_options :: "(string, string, nat) UseQueryOptions" where
  "ex_options = \<lparr> key = [''a''], query = 7, staleTime = 100, initialData = None \<rparr>"

definition ex_world :: "nat world" where
  "ex_world = \<lparr> next_id = 0, calls = [] \<rparr>"

definition ex_bare :: "(string, string, string, nat) UseQueryEntry" where
  "ex_bare = createQueryEntry None Nullish 0"

definition ex_entry :: "(string, string, string, nat) UseQueryEntry" where
  "ex_entry = attach_options ex_options ex_bare"

text \<open>Operation 0 is started at time 1000, operation 1 at 1010; operation 1 settles at 1020.\<close>

definition ex_first :: "(string, string, string, nat) UseQueryEntry \<times> nat world" where
  "ex_first = snd (refetch False 1000 ex_entry ex_world)"

definition ex_second :: "(string, string, string, nat) UseQueryEntry \<times> nat world" where
  "ex_second = snd (refetch False 1010 (fst ex_first) (snd ex_first))"

definition ex_committed :: "(string, string, string, nat) UseQueryEntry \<times> nat world" where
  "ex_committed = run False [Settles 1 (Fulfilled (Some ''new'')) 1020] ex_second"

text \<open>
  Operation 0 rejects at time 1005, with a falsy value that is not null in \<open>ex_falsy\<close>
  and with a truthy one in \<open>ex_errored\<close>. On \<open>ex_errored\<close>, \<^verbatim>\<open>refresh\<close> is called at
  1010, and then \<^verbatim>\<open>setEntryData\<close>.
\<close>

definition ex_falsy :: "(string, string, string, nat) UseQueryEntry \<times> nat world" where
  "ex_falsy = run False [Settles 0 (Rejected (Falsy ''0'')) 1005] ex_first"

definition ex_errored :: "(string, string, string, nat) UseQueryEntry \<times> nat world" where
  "ex_errored = run False [Settles 0 (Rejected (Truthy ''boom'')) 1005] ex_first"

definition ex_refreshed ::
  "(string, string) reply \<times> (string, string, string, nat) UseQueryEntry \<times> nat world" where
  "ex_refreshed = refresh False 1010 (fst ex_errored) (snd ex_errored)"

definition ex_edited :: "(string, string, string, nat) UseQueryEntry \<times> nat world" where
  "ex_edited = run False [SetEntryData (Literal (Some ''manual''))] (snd ex_refreshed)"

text \<open>A registry with entries at the keys \<open>[a]\<close> and \<open>[a, b]\<close>.\<close>

definition ex_ensured ::
  "(string, string, string, nat) UseQueryEntry \<times>
   (string, (string, string, string, nat) UseQueryEntry) TreeMapNode" where
  "ex_ensured = ensureEntry (\<lambda>s. s) [''a''] ex_options (TreeMapNode None None)"

definition ex_registry ::
  "(string, (string, string, string, nat) UseQueryEntry) TreeMapNode" where
  "ex_registry = snd (ensureEntry (\<lambda>s. s) [''a'', ''b''] ex_options (snd ex_ensured))"

section \<open>Properties of one entry\<close>

subsection \<open>Superseded operations\<close>

lemma settle_not_current:
  "\<not> is_current t entry \<Longrightarrow> settle t settled now entry = (entry, Fulfilled ())"
  by (cases settled) (simp_all add: settle_def on_then_def on_catch_def on_finally_def)

lemma refetch_Awaits:
  assumes "refetch production now entry w = (Awaits t, entry', w')"
  shows "t = next_id w" "next_id w' = Suc (next_id w)"
        "pending entry' = Some \<lparr> refreshCall = next_id w, pending_when = now \<rparr>"
  using assms by (auto simp: refetch_def Let_def split: if_splits option.splits)

lemma refetch_next_id_mono: "next_id w \<le> next_id (snd (snd (refetch production now entry w)))"
  by (simp add: refetch_def Let_def split: option.splits)

lemma refresh_next_id_mono: "next_id w \<le> next_id (snd (snd (refresh production now entry w)))"
  by (simp add: refresh_def refetch_def Let_def split: option.splits)

lemma refetch_newer:
  "a < next_id w \<Longrightarrow> (case pending entry of None \<Rightarrow> True | Some p \<Rightarrow> a < refreshCall p)
   \<Longrightarrow> newer a (snd (refetch production now entry w))"
  by (simp add: newer_def refetch_def Let_def split: option.splits)

lemma refetch_newer':
  "a < next_id w \<Longrightarrow> refetch production now entry w = (Awaits b, entry', w') \<Longrightarrow> newer a (entry', w')"
  by (auto simp add: newer_def refetch_def Let_def split: option.splits if_splits)

lemma settle_pending:
  "pending (fst (settle t settled now entry)) = None \<or>
   pending (fst (settle t settled now entry)) = pending entry"
  by (cases settled) (simp_all add: settle_def on_then_def on_catch_def on_finally_def)

lemma step_newer: "newer a s \<Longrightarrow> newer a (step production ev s)"
proof (cases s)
  case (Pair entry w)
  assume n: "newer a s"
  show ?thesis
  proof (cases ev)
    case (CallRefetch now)
    with n Pair refetch_newer [of a w entry production now] show ?thesis
      by (simp add: newer_def)
  next
    case (CallRefresh now)
    with n Pair refetch_newer [of a w entry production now] show ?thesis
      by (auto simp add: newer_def refresh_def split: option.splits)
  next
    case (Settles t settled now)
    with n Pair settle_pending [of t settled now entry] show ?thesis
      by (auto simp add: newer_def)
  next
    case (SetEntryData arg)
    with n Pair show ?thesis
      by (cases arg) (simp_all add: newer_def setData_def)
  next
    case (Invalidate shouldRefetch now)
    with n Pair refetch_newer [of a w "entry\<lparr>when := 0, pending := None\<rparr>" production now]
    show ?thesis
      by (auto simp add: newer_def invalidate_def Let_def)
  next
    case (Ensure opts)
    with n Pair show ?thesis by (simp add: newer_def attach_options_def)
  qed
qed

lemma run_newer: "newer a s \<Longrightarrow> newer a (run production evs s)"
  unfolding run_def by (induction evs arbitrary: s) (simp_all add: step_newer)

lemma step_next_id_mono: "next_id (snd s) \<le> next_id (snd (step production ev s))"
proof (cases s)
  case (Pair entry w)
  show ?thesis
    using Pair refetch_next_id_mono [of w production _ entry]
      refresh_next_id_mono [of w production _ entry]
      refetch_next_id_mono [of w production _ "entry\<lparr>when := 0, pending := None\<rparr>"]
    by (cases ev) (simp_all add: invalidate_def Let_def)
qed

lemma run_next_id_mono: "next_id (snd s) \<le> next_id (snd (run production evs s))"
  unfolding run_def
proof (induction evs arbitrary: s)
  case Nil
  show ?case by simp
next
  case (Cons ev evs)
  have "next_id (snd s) \<le> next_id (snd (step production ev s))"
    by (rule step_next_id_mono)
  also have "\<dots> \<le> next_id (snd (fold (step production) evs (step production ev s)))"
    by (rule Cons.IH)
  finally show ?case by simp
qed

lemma newer_not_current: "newer a s \<Longrightarrow> \<not> is_current a (fst s)"
  by (auto simp: newer_def is_current_def split: option.splits)

text \<open>
  Claim C1. Operation A is started by \<^verbatim>\<open>refetch\<close>, anything may happen to the entry
  (\<open>evs1\<close>), operation B is started by \<^verbatim>\<open>refetch\<close>, and again anything may happen
  (\<open>evs2\<close>). When the promise of A then settles, in either way and at any time, the
  entry is left as it is (its data, error, status, when and pending fields, and its
  options), the promise \<^verbatim>\<open>refreshCall\<close> of A is fulfilled, and a caller that awaits it
  is resumed with the data of the entry, not with an error. A and B have different
  descriptors, and the settlement of any operation \<open>t\<close> changes the entry only if the
  descriptor of \<open>t\<close> is the one in \<^verbatim>\<open>entry.pending\<close>.
\<close>

theorem superseded_refetch_is_discarded:
  assumes A: "refetch production now_a entry0 w0 = (Awaits a, entry1, w1)"
      and between: "run production evs1 (entry1, w1) = (entry2, w2)"
      and B: "refetch production now_b entry2 w2 = (Awaits b, entry3, w3)"
      and after: "run production evs2 (entry3, w3) = (entry4, w4)"
  shows "a \<noteq> b \<and>
         settle a settled now entry4 = (entry4, Fulfilled ()) \<and>
         resume (settle a settled now entry4) = Resolves (data entry4) \<and>
         (fst (settle t settled now entry4) \<noteq> entry4 \<longrightarrow> is_current t entry4)"
proof -
  from A have a: "a = next_id w0" "next_id w1 = Suc a"
    using refetch_Awaits(1,2) [OF A] by simp_all
  have "next_id (snd (entry1, w1)) \<le> next_id (snd (run production evs1 (entry1, w1)))"
    by (rule run_next_id_mono)
  with between a have lt: "a < next_id w2" by simp
  have b: "b = next_id w2" by (rule refetch_Awaits(1) [OF B])
  from lt B have "newer a (entry3, w3)" by (rule refetch_newer')
  then have "newer a (run production evs2 (entry3, w3))" by (rule run_newer)
  with after have "\<not> is_current a entry4" using newer_not_current by fastforce
  then have s: "settle a settled now entry4 = (entry4, Fulfilled ())"
    by (rule settle_not_current)
  have "fst (settle t settled now entry4) \<noteq> entry4 \<longrightarrow> is_current t entry4"
    using settle_not_current [of t entry4 settled now] by (cases "is_current t entry4") simp_all
  with s lt b show ?thesis by (simp add: resume_def)
qed

theorem superseded_refetch_is_discarded_witness:
  "settle 0 (Fulfilled (Some ''old'')) 1030 (fst ex_committed) = (fst ex_committed, Fulfilled ()) \<and>
   resume (settle 0 (Rejected (Truthy ''late'')) 1030 (fst ex_committed)) = Resolves (Some ''new'')"
proof -
  have A: "refetch False 1000 ex_entry ex_world = (Awaits 0, fst ex_first, snd ex_first)"
    by (simp add: ex_first_def ex_entry_def ex_bare_def ex_world_def ex_options_def
        attach_options_def createQueryEntry_def refetch_def)
  have between: "run False [] (fst ex_first, snd ex_first) = (fst ex_first, snd ex_first)"
    by (simp add: run_def)
  have B: "refetch False 1010 (fst ex_first) (snd ex_first) = (Awaits 1, fst ex_second, snd ex_second)"
    by (simp add: ex_second_def ex_first_def ex_entry_def ex_bare_def ex_world_def ex_options_def
        attach_options_def createQueryEntry_def refetch_def)
  have after: "run False [Settles 1 (Fulfilled (Some ''new'')) 1020] (fst ex_second, snd ex_second)
                 = (fst ex_committed, snd ex_committed)"
    by (simp add: ex_committed_def)
  have d: "data (fst ex_committed) = Some ''new''"
    by (simp add: ex_committed_def run_def ex_second_def ex_first_def ex_entry_def ex_bare_def
        ex_world_def ex_options_def attach_options_def createQueryEntry_def refetch_def
        settle_def on_then_def on_catch_def on_finally_def is_current_def)
  have 1: "settle 0 (Fulfilled (Some ''old'')) 1030 (fst ex_committed) = (fst ex_committed, Fulfilled ())"
    using superseded_refetch_is_discarded
      [OF A between B after, where settled = "Fulfilled (Some ''old'')" and now = 1030 and t = 0]
    by blast
  have 2: "resume (settle 0 (Rejected (Truthy ''late'')) 1030 (fst ex_committed))
             = Resolves (data (fst ex_committed))"
    using superseded_refetch_is_discarded
      [OF A between B after, where settled = "Rejected (Truthy ''late'')" and now = 1030 and t = 0]
    by blast
  from 1 2 d show ?thesis by simp
qed

subsection \<open>refresh\<close>

text \<open>
  Claim C5, as stated, fails: \<^verbatim>\<open>refresh\<close> tests the error for truthiness. The query of
  \<open>ex_falsy\<close> rejected with a falsy value that is not null, five milliseconds ago; the
  entry holds it as its error and has the status \<open>Error\<close>, and there is no operation
  in flight, yet \<^verbatim>\<open>refresh\<close> calls no query and resolves at once.
\<close>

theorem refresh_falsy_error_counterexample:
  "error (fst ex_falsy) \<noteq> Nullish \<and> status (fst ex_falsy) = Error \<and>
   pending (fst ex_falsy) = None \<and> options (fst ex_falsy) = Some ex_options \<and>
   refresh False 1010 (fst ex_falsy) (snd ex_falsy) = (Resolves None, fst ex_falsy, snd ex_falsy)"
  by (simp add: ex_falsy_def run_def ex_first_def ex_entry_def ex_bare_def ex_world_def
      ex_options_def attach_options_def createQueryEntry_def refetch_def refresh_def
      isExpired_def settle_def on_then_def on_catch_def on_finally_def is_current_def)

text \<open>
  Claim C5, amended. For an entry with options and no operation in flight, \<^verbatim>\<open>refresh\<close>
  calls \<^verbatim>\<open>query\<close> once more if and only if the error of the entry is truthy or
  \<open>now > when + staleTime\<close>; it then does what \<^verbatim>\<open>refetch\<close> does. Otherwise it resolves
  at once with the data of the entry and leaves the entry and the world as they are.
\<close>

theorem refresh_fetches_iff_truthy_or_expired:
  assumes "options entry = Some opts" and "pending entry = None"
  shows "(calls (snd (snd (refresh production now entry w))) = calls w @ [query opts] \<longleftrightarrow>
            truthy (error entry) \<or> now > when entry + staleTime opts) \<and>
         (truthy (error entry) \<or> now > when entry + staleTime opts \<longrightarrow>
            refresh production now entry w = refetch production now entry w \<and>
            fst (refresh production now entry w) = Awaits (next_id w)) \<and>
         (\<not> (truthy (error entry) \<or> now > when entry + staleTime opts) \<longrightarrow>
            refresh production now entry w = (Resolves (data entry), entry, w))"
  using assms by (auto simp: refresh_def refetch_def isExpired_def Let_def)

theorem refresh_fetches_iff_truthy_or_expired_witness:
  "refresh False 50 (ex_entry\<lparr> data := Some ''a'', status := Success, when := 0 \<rparr>) ex_world
     = (Resolves (Some ''a''), ex_entry\<lparr> data := Some ''a'', status := Success, when := 0 \<rparr>, ex_world) \<and>
   calls (snd (snd (refresh False 110 (ex_entry\<lparr> data := Some ''a'', status := Success, when := 0 \<rparr>) ex_world))) = [7] \<and>
   calls (snd (snd (refresh False 50 (ex_entry\<lparr> error := Truthy ''boom'', status := Error, when := 0 \<rparr>) ex_world))) = [7]"
proof -
  let ?e = "ex_entry\<lparr> data := Some ''a'', status := Success, when := 0 \<rparr>"
  let ?f = "ex_entry\<lparr> error := Truthy ''boom'', status := Error, when := 0 \<rparr>"
  have o: "options ?e = Some ex_options" "options ?f = Some ex_options"
    by (simp_all add: ex_entry_def ex_bare_def attach_options_def createQueryEntry_def)
  have p: "pending ?e = None" "pending ?f = None"
    by (simp_all add: ex_entry_def ex_bare_def attach_options_def createQueryEntry_def)
  have f: "error ?e = Nullish" "when ?e = 0" "staleTime ex_options = 100" "query ex_options = 7"
      "calls ex_world = []" "error ?f = Truthy ''boom''"
    by (simp_all add: ex_entry_def ex_bare_def attach_options_def createQueryEntry_def
        ex_options_def ex_world_def)
  have 1: "refresh False 50 ?e ex_world = (Resolves (data ?e), ?e, ex_world)"
    using refresh_fetches_iff_truthy_or_expired [OF o(1) p(1), of False 50 ex_world] f by simp
  have "calls (snd (snd (refresh False 110 ?e ex_world))) = calls ex_world @ [query ex_options]
          \<longleftrightarrow> truthy (error ?e) \<or> 110 > when ?e + staleTime ex_options"
    using refresh_fetches_iff_truthy_or_expired [OF o(1) p(1), of False 110 ex_world]
    by (rule conjunct1)
  with f have 2: "calls (snd (snd (refresh False 110 ?e ex_world))) = [7]" by simp
  have "calls (snd (snd (refresh False 50 ?f ex_world))) = calls ex_world @ [query ex_options]
          \<longleftrightarrow> truthy (error ?f) \<or> 50 > when ?f + staleTime ex_options"
    using refresh_fetches_iff_truthy_or_expired [OF o(2) p(2), of False 50 ex_world]
    by (rule conjunct1)
  with f have 3: "calls (snd (snd (refresh False 50 ?f ex_world))) = [7]" by simp
  from 1 2 3 show ?thesis by simp
qed

lemma options_step:
  "options (fst s) = Some opts \<Longrightarrow> options (fst (step production ev s)) = Some opts"
proof (cases s)
  case (Pair entry w)
  assume "options (fst s) = Some opts"
  with Pair have o: "options entry = Some opts" by simp
  show ?thesis
  proof (cases ev)
    case (CallRefetch now)
    with Pair o show ?thesis by (simp add: refetch_def Let_def)
  next
    case (CallRefresh now)
    with Pair o show ?thesis
      by (simp add: refresh_def refetch_def Let_def split: option.splits)
  next
    case (Settles t settled now)
    with Pair o show ?thesis
      by (cases settled)
         (simp_all add: settle_def on_then_def on_catch_def on_finally_def)
  next
    case (SetEntryData arg)
    with Pair o show ?thesis by (cases arg) (simp_all add: setData_def)
  next
    case (Invalidate shouldRefetch now)
    with Pair o show ?thesis by (simp add: invalidate_def refetch_def Let_def)
  next
    case (Ensure opts')
    with Pair o show ?thesis by (simp add: attach_options_def)
  qed
qed

lemma options_run:
  "options (fst s) = Some opts \<Longrightarrow> options (fst (run production evs s)) = Some opts"
  unfolding run_def by (induction evs arbitrary: s) (simp_all add: options_step)

lemma step_undisturbed:
  assumes "undisturbed t w s" and "t < next_id w"
  shows "undisturbed t w (step production ev s) \<or> newer t (step production ev s)"
proof (cases s)
  case (Pair entry w')
  with assms(1) have w': "w' = w" and c: "is_current t entry"
    by (simp_all add: undisturbed_def)
  from c obtain p where p: "pending entry = Some p" "refreshCall p = t"
    by (auto simp add: is_current_def split: option.splits)
  show ?thesis
  proof (cases ev)
    case (CallRefetch now)
    with Pair w' p assms(2) show ?thesis
      by (auto simp add: undisturbed_def newer_def is_current_def refetch_def Let_def
          split: option.splits)
  next
    case (CallRefresh now)
    with Pair w' p show ?thesis
      by (auto simp add: undisturbed_def is_current_def refresh_def split: option.splits)
  next
    case (Settles t' settled now)
    with Pair w' p assms(2) show ?thesis
      by (cases settled)
         (auto simp add: undisturbed_def newer_def is_current_def settle_def on_then_def
            on_catch_def on_finally_def)
  next
    case (SetEntryData arg)
    with Pair w' p show ?thesis
      by (cases arg) (simp_all add: undisturbed_def is_current_def setData_def)
  next
    case (Invalidate shouldRefetch now)
    with Pair w' p assms(2) show ?thesis
      by (auto simp add: undisturbed_def newer_def is_current_def invalidate_def refetch_def
          Let_def split: option.splits)
  next
    case (Ensure opts)
    with Pair w' p show ?thesis
      by (simp add: undisturbed_def is_current_def attach_options_def)
  qed
qed

lemma run_undisturbed:
  "undisturbed t w s \<Longrightarrow> t < next_id w \<Longrightarrow>
   undisturbed t w (run production evs s) \<or> newer t (run production evs s)"
proof (induction evs arbitrary: s)
  case Nil
  then show ?case by (simp add: run_def)
next
  case (Cons ev evs)
  from step_undisturbed [OF Cons.prems, of production ev]
  show ?case
  proof
    assume "undisturbed t w (step production ev s)"
    from Cons.IH [OF this Cons.prems(2)] show ?thesis by (simp add: run_def)
  next
    assume "newer t (step production ev s)"
    then have "newer t (run production evs (step production ev s))" by (rule run_newer)
    then show ?thesis by (simp add: run_def)
  qed
qed

text \<open>
  Claim C4, as stated, fails: the second \<^verbatim>\<open>refresh\<close> tests again whether the entry is
  stale. \<open>ex_errored\<close> is in the error state and not expired. The first \<^verbatim>\<open>refresh\<close>, at
  1010, starts operation 1; \<^verbatim>\<open>setEntryData\<close> then clears the error; the second
  \<^verbatim>\<open>refresh\<close>, at 1020, with operation 1 still in flight, resolves at once with the
  data that was set, while the first caller gets what the query resolves with.
\<close>

theorem concurrent_refresh_counterexample:
  "status (fst ex_errored) = Error \<and> options (fst ex_errored) = Some ex_options \<and>
   fst ex_refreshed = Awaits 1 \<and> is_current 1 (fst ex_edited) \<and>
   refresh False 1020 (fst ex_edited) (snd ex_edited) =
     (Resolves (Some ''manual''), fst ex_edited, snd ex_edited) \<and>
   resume (settle 1 (Fulfilled (Some ''fetched'')) 1030 (fst ex_edited)) =
     Resolves (Some ''fetched'')"
  by (simp add: ex_edited_def ex_refreshed_def ex_errored_def run_def ex_first_def ex_entry_def
      ex_bare_def ex_world_def ex_options_def attach_options_def createQueryEntry_def
      refetch_def refresh_def isExpired_def setData_def resume_def
      settle_def on_then_def on_catch_def on_finally_def is_current_def)

text \<open>
  Claim C4, amended. The entry has options, no operation in flight, and a truthy
  error or \<open>now1 > when + staleTime\<close>. A first \<^verbatim>\<open>refresh\<close> at \<open>now1\<close> starts an
  operation; then anything may happen to the entry (\<open>evs\<close>); a second \<^verbatim>\<open>refresh\<close> is
  called at \<open>now2\<close> while that operation is still the pending one of the entry and the
  entry is still stale (its error is truthy or \<open>now2 > when + staleTime\<close>). Then from
  the first call to the second \<^verbatim>\<open>query\<close> is called exactly once, the second call
  changes nothing, and both callers await the promise \<^verbatim>\<open>refreshCall\<close> of that one
  operation. Both are therefore resumed by the same settlement with the same result,
  \<open>resume (settle (next_id w) settled now entry')\<close>, which is never a rejection.
\<close>

theorem refresh_deduplicated_while_pending_and_stale:
  assumes "options entry = Some opts" and "pending entry = None"
      and "truthy (error entry) \<or> now1 > when entry + staleTime opts"
      and "refresh production now1 entry w = (r1, entry1, w1)"
      and "run production evs (entry1, w1) = (entry2, w2)"
      and "is_current (next_id w) entry2"
      and "truthy (error entry2) \<or> now2 > when entry2 + staleTime opts"
      and "refresh production now2 entry2 w2 = (r2, entry3, w3)"
  shows "r1 = Awaits (next_id w) \<and> r2 = Awaits (next_id w) \<and>
         calls w3 = calls w @ [query opts] \<and> entry3 = entry2 \<and> w3 = w2 \<and>
         (\<forall>settled now. \<exists>d. resume (settle (next_id w) settled now entry3) = Resolves d)"
proof -
  from assms(1-4) have r1: "r1 = Awaits (next_id w)"
    and e1: "options entry1 = Some opts" "is_current (next_id w) entry1"
    and w1: "next_id w1 = Suc (next_id w)" "calls w1 = calls w @ [query opts]"
    by (auto simp add: refresh_def refetch_def isExpired_def Let_def is_current_def)
  from e1(2) have "undisturbed (next_id w) w1 (entry1, w1)"
    by (simp add: undisturbed_def)
  moreover from w1(1) have "next_id w < next_id w1" by simp
  ultimately have "undisturbed (next_id w) w1 (run production evs (entry1, w1)) \<or>
                   newer (next_id w) (run production evs (entry1, w1))"
    by (rule run_undisturbed)
  with assms(5,6) have w2: "w2 = w1"
    using newer_not_current [of "next_id w" "(entry2, w2)"]
    by (auto simp add: undisturbed_def)
  from e1(1) have "options (fst (run production evs (entry1, w1))) = Some opts"
    by (simp add: options_run)
  with assms(5) have o2: "options entry2 = Some opts" by simp
  from assms(6) obtain p where p: "pending entry2 = Some p" "refreshCall p = next_id w"
    by (auto simp add: is_current_def split: option.splits)
  from assms(7,8) o2 p have r2: "r2 = Awaits (next_id w)" "entry3 = entry2" "w3 = w2"
    by (auto simp add: refresh_def isExpired_def)
  have "\<forall>settled now. \<exists>d. resume (settle (next_id w) settled now entry3) = Resolves d"
  proof (intro allI)
    fix settled now
    show "\<exists>d. resume (settle (next_id w) settled now entry3) = Resolves d"
      by (cases settled)
         (simp_all add: resume_def settle_def on_then_def on_catch_def on_finally_def)
  qed
  with r1 r2 w1 w2 show ?thesis by simp
qed

theorem refresh_deduplicated_while_pending_and_stale_witness:
  "fst (refresh False 1000 ex_entry ex_world) = Awaits 0 \<and>
   fst (refresh False 1001 (setData (Literal (Some ''manual'')) (fst ex_first)) (snd ex_first))
     = Awaits 0 \<and>
   calls (snd (snd (refresh False 1001 (setData (Literal (Some ''manual'')) (fst ex_first))
                      (snd ex_first)))) = [7]"
proof -
  let ?e2 = "setData (Literal (Some ''manual'')) (fst ex_first)"
  have o: "options ex_entry = Some ex_options"
    by (simp add: ex_entry_def ex_bare_def attach_options_def createQueryEntry_def)
  have p: "pending ex_entry = None"
    by (simp add: ex_entry_def ex_bare_def attach_options_def createQueryEntry_def)
  have s: "truthy (error ex_entry) \<or> 1000 > when ex_entry + staleTime ex_options"
    by (simp add: ex_entry_def ex_bare_def attach_options_def createQueryEntry_def ex_options_def)
  have r1: "refresh False 1000 ex_entry ex_world = (Awaits 0, fst ex_first, snd ex_first)"
    by (simp add: ex_first_def ex_entry_def ex_bare_def ex_world_def ex_options_def
        attach_options_def createQueryEntry_def refetch_def refresh_def isExpired_def)
  have evs: "run False [SetEntryData (Literal (Some ''manual''))] (fst ex_first, snd ex_first)
               = (?e2, snd ex_first)"
    using step.simps(4) [of False "Literal (Some ''manual'')" "fst ex_first" "snd ex_first"]
    by (simp add: run_def)
  have f: "calls ex_world = []" "query ex_options = 7" "next_id ex_world = 0"
    by (simp_all add: ex_world_def ex_options_def)
  have c: "is_current (next_id ex_world) ?e2"
    by (simp add: f setData_def ex_first_def ex_entry_def ex_bare_def ex_world_def ex_options_def
        attach_options_def createQueryEntry_def refetch_def is_current_def)
  have s2: "truthy (error ?e2) \<or> 1001 > when ?e2 + staleTime ex_options"
    by (simp add: setData_def ex_first_def ex_entry_def ex_bare_def ex_world_def ex_options_def
        attach_options_def createQueryEntry_def refetch_def)
  have r2: "refresh False 1001 ?e2 (snd ex_first) =
     (fst (refresh False 1001 ?e2 (snd ex_first)),
      fst (snd (refresh False 1001 ?e2 (snd ex_first))),
      snd (snd (refresh False 1001 ?e2 (snd ex_first))))"
    by simp
  note T = refresh_deduplicated_while_pending_and_stale [OF o p s r1 evs c s2 r2]
  from T have a: "fst (refresh False 1001 ?e2 (snd ex_first)) = Awaits (next_id ex_world)"
    by blast
  from T have b: "calls (snd (snd (refresh False 1001 ?e2 (snd ex_first))))
                    = calls ex_world @ [query ex_options]"
    by blast
  from r1 have "fst (refresh False 1000 ex_entry ex_world) = Awaits 0" by simp
  with a b f show ?thesis by simp
qed

subsection \<open>A query that rejects\<close>

text \<open>
  Claim C3, as stated, fails: when the query of the current operation rejects, the
  caller that awaits it is not given the error.
\<close>

theorem rejection_counterexample:
  "is_current 0 (fst ex_first) \<and>
   resume (settle 0 (Rejected (Truthy ''boom'')) 1005 (fst ex_first)) \<noteq> Rejects (Thrown (Truthy ''boom''))"
  by (simp add: ex_first_def ex_entry_def ex_bare_def ex_world_def ex_options_def
        attach_options_def createQueryEntry_def refetch_def resume_def
        settle_def on_then_def on_catch_def on_finally_def is_current_def)

text \<open>
  Claim C3, amended. When the query of the operation whose descriptor is current rejects
  with \<open>x\<close>, the entry stores \<open>x\<close> in its error field and its status becomes
  \<open>Error\<close>; the data is kept. The handler of \<^verbatim>\<open>.catch\<close> returns normally, so the promise
  \<^verbatim>\<open>refreshCall\<close> is fulfilled, and every caller of \<^verbatim>\<open>refetch\<close> or \<^verbatim>\<open>refresh\<close> that awaits
  it is resumed with the data of the entry: its promise resolves and does not reject.
\<close>

theorem rejection_is_stored_and_swallowed:
  assumes "is_current t entry"
  shows "error (fst (settle t (Rejected x) now entry)) = x \<and>
         status (fst (settle t (Rejected x) now entry)) = Error \<and>
         data (fst (settle t (Rejected x) now entry)) = data entry \<and>
         snd (settle t (Rejected x) now entry) = Fulfilled () \<and>
         resume (settle t (Rejected x) now entry) = Resolves (data entry)"
  using assms
  by (simp add: resume_def settle_def on_then_def on_catch_def on_finally_def is_current_def)

theorem rejection_is_stored_and_swallowed_witness:
  "error (fst (settle 0 (Rejected (Truthy ''boom'')) 1005 (fst ex_first))) = Truthy ''boom'' \<and>
   status (fst (settle 0 (Rejected (Truthy ''boom'')) 1005 (fst ex_first))) = Error \<and>
   resume (settle 0 (Rejected (Truthy ''boom'')) 1005 (fst ex_first)) = Resolves None"
proof -
  have c: "is_current 0 (fst ex_first)"
    by (simp add: ex_first_def ex_entry_def ex_bare_def ex_world_def ex_options_def
        attach_options_def createQueryEntry_def refetch_def is_current_def)
  have d: "data (fst ex_first) = None"
    by (simp add: ex_first_def ex_entry_def ex_bare_def ex_world_def ex_options_def
        attach_options_def createQueryEntry_def refetch_def)
  show ?thesis
    using rejection_is_stored_and_swallowed [OF c, of "Truthy ''boom''" 1005] d by simp
qed

subsection \<open>An entry without options\<close>

text \<open>
  Claim C8, as stated, fails: in a production build the guard is compiled out, and the
  calls do not raise the configuration error.
\<close>

theorem missing_options_counterexample:
  "options ex_bare = None \<and> fst (refetch True 1000 ex_bare ex_world) \<noteq> Rejects ConfigError \<and>
   fst (refresh True 1000 ex_bare ex_world) \<noteq> Rejects ConfigError"
  by (simp add: ex_bare_def createQueryEntry_def refetch_def refresh_def)

text \<open>
  Claim C8, amended. On an entry without options, \<^verbatim>\<open>refetch\<close> and \<^verbatim>\<open>refresh\<close> fail in
  their synchronous part, before the entry is touched and before \<^verbatim>\<open>query\<close> is called:
  the promise they return is rejected with the configuration error in a build that is
  not a production build, and with the \<^verbatim>\<open>TypeError\<close> of reading a property of
  \<^verbatim>\<open>undefined\<close> in a production build. The entry, its error field included, and the
  world are unchanged.
\<close>

theorem missing_options_fail_at_once:
  assumes "options entry = None"
  shows "refetch production now entry w =
           (Rejects (if production then TypeError else ConfigError), entry, w) \<and>
         refresh production now entry w =
           (Rejects (if production then TypeError else ConfigError), entry, w)"
  using assms by (simp add: refetch_def refresh_def)

theorem missing_options_fail_at_once_witness:
  "refetch False 1000 ex_bare ex_world = (Rejects ConfigError, ex_bare, ex_world) \<and>
   refresh False 1000 ex_bare ex_world = (Rejects ConfigError, ex_bare, ex_world) \<and>
   refetch True 1000 ex_bare ex_world = (Rejects TypeError, ex_bare, ex_world) \<and>
   refresh True 1000 ex_bare ex_world = (Rejects TypeError, ex_bare, ex_world)"
proof -
  have o: "options ex_bare = None" by (simp add: ex_bare_def createQueryEntry_def)
  show ?thesis
    using missing_options_fail_at_once [OF o, of False 1000 ex_world]
      missing_options_fail_at_once [OF o, of True 1000 ex_world]
    by simp
qed

subsection \<open>The status invariant\<close>

lemma status_inv_create:
  "truthy err \<or> err = Nullish \<Longrightarrow> status_inv (createQueryEntry initial err whn)"
  by (cases err) (simp_all add: status_inv_def createQueryEntry_def)

lemma status_inv_refetch:
  "status_inv entry \<Longrightarrow> status_inv (fst (snd (refetch production now entry w)))"
  by (simp add: status_inv_def refetch_def Let_def split: option.splits)

lemma status_inv_refresh:
  "status_inv entry \<Longrightarrow> status_inv (fst (snd (refresh production now entry w)))"
  by (auto simp add: status_inv_def refresh_def refetch_def Let_def split: option.splits)

lemma status_inv_settle:
  assumes "status_inv entry" and "ordinary (Settles t settled now)"
  shows "status_inv (fst (settle t settled now entry))"
  using assms
  by (cases settled)
     (simp_all add: status_inv_def settle_def on_then_def on_catch_def on_finally_def)

lemma status_inv_step:
  assumes "status_inv (fst s)" and "ordinary ev"
  shows "status_inv (fst (step production ev s))"
proof (cases s)
  case (Pair entry w)
  with assms(1) have i: "status_inv entry" by simp
  have i0: "status_inv (entry\<lparr>when := 0, pending := None\<rparr>)" "status_inv (entry\<lparr>when := 0\<rparr>)"
    using i by (simp_all add: status_inv_def)
  show ?thesis
  proof (cases ev)
    case (CallRefetch now)
    with Pair i show ?thesis by (simp add: status_inv_refetch)
  next
    case (CallRefresh now)
    with Pair i show ?thesis by (simp add: status_inv_refresh)
  next
    case (Settles t settled now)
    with Pair i assms(2) show ?thesis by (simp add: status_inv_settle)
  next
    case (SetEntryData arg)
    with assms(2) show ?thesis by simp
  next
    case (Invalidate shouldRefetch now)
    with Pair i0 status_inv_refetch [OF i0(1), of production now w] show ?thesis
      by (simp add: invalidate_def Let_def)
  next
    case (Ensure opts)
    with Pair i show ?thesis by (simp add: attach_options_def status_inv_def)
  qed
qed

lemma status_inv_run:
  "status_inv (fst s) \<Longrightarrow> list_all ordinary evs \<Longrightarrow>
   status_inv (fst (run production evs s))"
  unfolding run_def
  by (induction evs arbitrary: s) (simp_all add: status_inv_step)

text \<open>
  Claim C7, as stated, fails: the handlers of \<^verbatim>\<open>refetch\<close> commit whatever the query
  settles with, and \<^verbatim>\<open>createQueryEntry\<close> picks the status by the truthiness of the
  error. After a query that resolves with \<^verbatim>\<open>undefined\<close> the status is \<open>Success\<close> and the
  data is not defined; after one that rejects with \<^verbatim>\<open>null\<close> the status is \<open>Error\<close> and
  the error is null; an entry created with a falsy error that is not null has the
  status \<open>Pending\<close> and an error.
\<close>

theorem status_invariant_counterexample:
  "\<not> status_inv (fst (run False
       [Ensure ex_options, CallRefetch 1000, Settles 0 (Fulfilled None) 1005]
       (ex_bare, ex_world))) \<and>
   \<not> status_inv (fst (run False
       [Ensure ex_options, CallRefetch 1000, Settles 0 (Rejected Nullish) 1005]
       (ex_bare, ex_world))) \<and>
   \<not> status_inv (createQueryEntry None (Falsy ''0'') 0
                  :: (string, string, string, nat) UseQueryEntry)"
  by (simp add: run_def ex_bare_def ex_world_def ex_options_def
        attach_options_def createQueryEntry_def refetch_def status_inv_def
        settle_def on_then_def on_catch_def on_finally_def is_current_def)

text \<open>
  Claim C7, amended. Take an entry made by \<^verbatim>\<open>createQueryEntry\<close> (by \<^verbatim>\<open>ensureEntry\<close> or
  by hydration) with an error that is null or truthy, and any sequence of \<^verbatim>\<open>refetch\<close>,
  \<^verbatim>\<open>refresh\<close>, settlements, invalidations and \<^verbatim>\<open>ensureEntry\<close> in which every query
  resolves with a defined value or rejects with a value that is not null. The entry
  it reaches satisfies the invariant: the status \<open>Success\<close> implies that the data is
  defined, \<open>Error\<close> that the error is not null, \<open>Pending\<close> that there is neither data
  nor error. Histories with \<^verbatim>\<open>setEntryData\<close> are left out.
\<close>

theorem status_invariant_ordinary_histories:
  assumes "truthy err \<or> err = Nullish" and "list_all ordinary evs"
  shows "status_inv (fst (run production evs (createQueryEntry initial err whn, w)))"
  using assms by (simp add: status_inv_run status_inv_create)

theorem status_invariant_ordinary_histories_witness:
  "status_inv (fst (run False
       [Ensure ex_options, CallRefetch 1000, Settles 0 (Rejected (Truthy ''boom'')) 1005,
        Invalidate True 1010, CallRefresh 1011, Settles 1 (Fulfilled (Some ''x'')) 1020]
       (createQueryEntry None Nullish 0, ex_world)))"
proof -
  have e: "truthy (Nullish :: string error_value) \<or> (Nullish :: string error_value) = Nullish"
    by simp
  have "list_all ordinary
       [Ensure ex_options, CallRefetch 1000, Settles 0 (Rejected (Truthy ''boom'')) 1005,
        Invalidate True 1010, CallRefresh 1011, Settles 1 (Fulfilled (Some ''x'')) 1020
          :: (string, string, string, nat) event]"
    by simp
  with e show ?thesis by (rule status_invariant_ordinary_histories)
qed

section \<open>Properties of the registry\<close>

subsection \<open>Maps and paths\<close>






subsection \<open>ensureEntry\<close>



subsection \<open>invalidateEntry\<close>











subsection \<open>Serialisation\<close>

text \<open>
  Claim C2, as stated, fails: the third component of a serialised value is the
  timestamp \<^verbatim>\<open>entry.when\<close> itself, not the age of the data on a clock that shows 100,
  and hydration on a clock that shows 1000 takes the third component as it is.
\<close>

theorem serialized_when_counterexample:
  "snd (snd (queryEntry_toJSON (ex_bare\<lparr> when := 40 \<rparr>))) \<noteq> Some (100 - when (ex_bare\<lparr> when := 40 \<rparr>)) \<and>
   when (createQueryEntry_spread (Some ''a'', Nullish, Some 60)
          :: (string, string, string, nat) UseQueryEntry) \<noteq> 1000 - 60"
  by (simp add: queryEntry_toJSON_def createQueryEntry_spread_def createQueryEntry_def)

text \<open>
  Claim C2, amended. Serialisation emits \<^verbatim>\<open>[data, error, when]\<close> with the absolute
  timestamp \<^verbatim>\<open>entry.when\<close> and reads no clock; hydration creates the entry with the
  data and the error as given and with \<open>when\<close> equal to the third component, or 0
  if it is missing. A hydrated entry therefore has the \<open>when\<close> of the serialised one,
  and its age at the time \<open>t2\<close> of the receiving clock is the age it had at the time
  \<open>t1\<close> of serialisation plus the difference \<open>t2 - t1\<close> of the two readings.
\<close>

theorem serialized_when_is_absolute:
  "queryEntry_toJSON entry = (data entry, error entry, Some (when entry)) \<and>
   data (createQueryEntry_spread (d, err, whn)) = d \<and>
   error (createQueryEntry_spread (d, err, whn)) = err \<and>
   when (createQueryEntry_spread (d, err, whn)) = (case whn of None \<Rightarrow> 0 | Some t \<Rightarrow> t) \<and>
   when (createQueryEntry_spread (queryEntry_toJSON entry)) = when entry \<and>
   t2 - when (createQueryEntry_spread (queryEntry_toJSON entry)) = (t1 - when entry) + (t2 - t1)"
  by (simp add: queryEntry_toJSON_def createQueryEntry_spread_def createQueryEntry_def)

lemma toJSON_spread:
  "queryEntry_toJSON (createQueryEntry_spread (queryEntry_toJSON entry)) = queryEntry_toJSON entry"
  by (simp add: queryEntry_toJSON_def createQueryEntry_spread_def createQueryEntry_def)

lemma serialize_node_hydrated: "serialize_node (k, hydrated node) = serialize_node (k, node)"
proof (induction node arbitrary: k)
  case (TreeMapNode v cs)
  have "map_option (map (\<lambda>kc. serialize_node (fst kc, hydrated (snd kc)))) cs
          = map_option (map serialize_node) cs"
  proof (rule option.map_cong [OF refl])
    fix l assume l: "l \<in> set_option cs"
    show "map (\<lambda>kc. serialize_node (fst kc, hydrated (snd kc))) l = map serialize_node l"
    proof (rule map_cong [OF refl])
      fix kc assume kc: "kc \<in> set l"
      have "snd kc \<in> Basic_BNFs.snds kc" by (cases kc) simp
      with l kc have "serialize_node (fst kc, hydrated (snd kc)) = serialize_node (fst kc, snd kc)"
        using TreeMapNode.IH [of l kc "snd kc" "fst kc"] by blast
      then show "serialize_node (fst kc, hydrated (snd kc)) = serialize_node kc"
        by simp
    qed
  qed
  then show ?case
    by (simp add: option.map_comp comp_def toJSON_spread)
qed

lemma map_set_fresh: "k \<notin> fst ` set m \<Longrightarrow> map_set m k v = m @ [(k, v)]"
  by (induction m) auto


lemma foldl_appendToTree:
  assumes step: "\<And>kc q. kc \<in> set l \<Longrightarrow>
            appendToTree q (serialize_node kc) =
              TreeMapNode (node_value q)
                (Some (map_set (case children q of None \<Rightarrow> [] | Some m \<Rightarrow> m) (fst kc) (hydrated (snd kc))))"
      and "distinct (map fst l)"
      and "fst ` set l \<inter> fst ` set m0 = {}"
  shows "foldl appendToTree (TreeMapNode v (Some m0)) (map serialize_node l) =
           TreeMapNode v (Some (m0 @ map (\<lambda>kc. (fst kc, hydrated (snd kc))) l))"
  using assms
proof (induction l arbitrary: m0)
  case Nil
  show ?case by simp
next
  case (Cons kc l)
  have fresh: "fst kc \<notin> fst ` set m0" using Cons.prems(3) by auto
  have 1: "appendToTree (TreeMapNode v (Some m0)) (serialize_node kc) =
             TreeMapNode v (Some (m0 @ [(fst kc, hydrated (snd kc))]))"
    using Cons.prems(1) [of kc "TreeMapNode v (Some m0)"] fresh
    by (simp add: map_set_fresh)
  have 2: "foldl appendToTree (TreeMapNode v (Some (m0 @ [(fst kc, hydrated (snd kc))])))
             (map serialize_node l) =
           TreeMapNode v (Some ((m0 @ [(fst kc, hydrated (snd kc))]) @
               map (\<lambda>kc. (fst kc, hydrated (snd kc))) l))"
  proof (rule Cons.IH)
    show "distinct (map fst l)" using Cons.prems(2) by simp
    show "fst ` set l \<inter> fst ` set (m0 @ [(fst kc, hydrated (snd kc))]) = {}"
      using Cons.prems(2,3) by auto
  next
    fix kc' q assume "kc' \<in> set l"
    then show "appendToTree q (serialize_node kc') =
              TreeMapNode (node_value q)
                (Some (map_set (case children q of None \<Rightarrow> [] | Some m \<Rightarrow> m) (fst kc') (hydrated (snd kc'))))"
      using Cons.prems(1) by simp
  qed
  from 1 2 show ?case by simp
qed

lemma foldl_appendToTree_fresh:
  assumes step: "\<And>kc q. kc \<in> set l \<Longrightarrow>
            appendToTree q (serialize_node kc) =
              TreeMapNode (node_value q)
                (Some (map_set (case children q of None \<Rightarrow> [] | Some m \<Rightarrow> m) (fst kc) (hydrated (snd kc))))"
      and "distinct (map fst l)" and "l \<noteq> []"
  shows "foldl appendToTree (TreeMapNode v None) (map serialize_node l) =
           TreeMapNode v (Some (map (\<lambda>kc. (fst kc, hydrated (snd kc))) l))"
proof (cases l)
  case Nil
  with assms(3) show ?thesis by simp
next
  case (Cons kc l')
  have 1: "appendToTree (TreeMapNode v None) (serialize_node kc) =
             TreeMapNode v (Some [(fst kc, hydrated (snd kc))])"
    using step [of kc "TreeMapNode v None"] Cons by simp
  have 2: "foldl appendToTree (TreeMapNode v (Some [(fst kc, hydrated (snd kc))]))
             (map serialize_node l') =
           TreeMapNode v (Some ([(fst kc, hydrated (snd kc))] @
               map (\<lambda>kc. (fst kc, hydrated (snd kc))) l'))"
  proof (rule foldl_appendToTree)
    show "distinct (map fst l')" using assms(2) Cons by simp
    show "fst ` set l' \<inter> fst ` set [(fst kc, hydrated (snd kc))] = {}"
      using assms(2) Cons by auto
  next
    fix kc' q assume "kc' \<in> set l'"
    then show "appendToTree q (serialize_node kc') =
              TreeMapNode (node_value q)
                (Some (map_set (case children q of None \<Rightarrow> [] | Some m \<Rightarrow> m) (fst kc') (hydrated (snd kc'))))"
      using step Cons by simp
  qed
  from 1 2 Cons show ?thesis by simp
qed

lemma appendToTree_serialize_node:
  "wf_node node \<Longrightarrow>
   appendToTree q (serialize_node (k, node)) =
     TreeMapNode (node_value q)
       (Some (map_set (case children q of None \<Rightarrow> [] | Some m \<Rightarrow> m) k (hydrated node)))"
proof (induction node arbitrary: q k)
  case (TreeMapNode v cs)
  let ?v = "map_option (\<lambda>entry. createQueryEntry_spread (queryEntry_toJSON entry)) v"
  have node': "(case map_option (map serialize_node) cs of
                  None \<Rightarrow> TreeMapNode ?v None
                | Some l \<Rightarrow> foldl appendToTree (TreeMapNode ?v None) l) =
               hydrated (TreeMapNode v cs)"
  proof (cases cs)
    case None
    then show ?thesis by simp
  next
    case (Some l)
    with TreeMapNode.prems have wf: "l \<noteq> []" "distinct (map fst l)"
      "list_all (\<lambda>kc. wf_node (snd kc)) l" by simp_all
    have "foldl appendToTree (TreeMapNode ?v None) (map serialize_node l) =
            TreeMapNode ?v (Some (map (\<lambda>kc. (fst kc, hydrated (snd kc))) l))"
    proof (rule foldl_appendToTree_fresh [OF _ wf(2) wf(1)])
      fix kc q' assume kc: "kc \<in> set l"
      with wf(3) have "wf_node (snd kc)" by (simp add: list_all_iff)
      moreover have "snd kc \<in> Basic_BNFs.snds kc" by (cases kc) simp
      moreover have "l \<in> set_option cs" using Some by simp
      ultimately have "appendToTree q' (serialize_node (fst kc, snd kc)) =
              TreeMapNode (node_value q')
                (Some (map_set (case children q' of None \<Rightarrow> [] | Some m \<Rightarrow> m) (fst kc) (hydrated (snd kc))))"
        using kc TreeMapNode.IH [of l kc "snd kc" q' "fst kc"] by blast
      then show "appendToTree q' (serialize_node kc) =
              TreeMapNode (node_value q')
                (Some (map_set (case children q' of None \<Rightarrow> [] | Some m \<Rightarrow> m) (fst kc) (hydrated (snd kc))))"
        by simp
    qed
    with Some show ?thesis by simp
  qed
  show ?case
    using node' by (simp add: option.map_comp comp_def Let_def)
qed

text \<open>
  Claim C6. Serialising a registry, hydrating the result into a fresh registry and
  serialising again gives the first serialisation. Neither \<^verbatim>\<open>serialize\<close> nor
  \<^verbatim>\<open>createTreeMap\<close> reads the clock, so this holds for any two instants of
  serialisation and hydration. The registry is one that a tree of \<^verbatim>\<open>Map\<close>s can be
  (\<open>wf_node\<close>): distinct keys in every map, and no map without a child.
\<close>

theorem serialize_hydrate_serialize:
  fixes root :: "('k, ('k, 'd, 'e, 'q) UseQueryEntry) TreeMapNode"
  assumes "wf_node root"
  shows "serialize (createTreeMap (serialize root)
           :: ('k, ('k, 'd, 'e, 'q) UseQueryEntry) TreeMapNode) = serialize root"
proof (cases "children root")
  case None
  then show ?thesis by (simp add: serialize_def createTreeMap_def)
next
  case (Some l)
  let ?fresh = "createTreeMap (serialize root) :: ('k, ('k, 'd, 'e, 'q) UseQueryEntry) TreeMapNode"
  from Some assms have wf: "l \<noteq> []" "distinct (map fst l)" "list_all (\<lambda>kc. wf_node (snd kc)) l"
    by (cases root; simp)+
  have "foldl appendToTree (TreeMapNode None None) (map serialize_node l) =
          TreeMapNode None (Some (map (\<lambda>kc. (fst kc, hydrated (snd kc))) l))"
  proof (rule foldl_appendToTree_fresh [OF _ wf(2) wf(1)])
    fix kc and q :: "('k, ('k, 'd, 'e, 'q) UseQueryEntry) TreeMapNode"
    assume "kc \<in> set l"
    with wf(3) have "wf_node (snd kc)" by (simp add: list_all_iff)
    from appendToTree_serialize_node [OF this, of q "fst kc"]
    show "appendToTree q (serialize_node kc) =
              TreeMapNode (node_value q)
                (Some (map_set (case children q of None \<Rightarrow> [] | Some m \<Rightarrow> m) (fst kc) (hydrated (snd kc))))"
      by simp
  qed
  then have "?fresh = TreeMapNode None (Some (map (\<lambda>kc. (fst kc, hydrated (snd kc))) l))"
    by (simp only: serialize_def createTreeMap_def Some option.case)
  then have "serialize ?fresh =
          serialize (TreeMapNode None (Some (map (\<lambda>kc. (fst kc, hydrated (snd kc))) l)))"
    by simp
  also have "\<dots> = map (\<lambda>kc. serialize_node (fst kc, hydrated (snd kc))) l"
    by (simp add: serialize_def comp_def)
  also have "\<dots> = map serialize_node l"
    by (simp add: serialize_node_hydrated)
  also have "\<dots> = serialize root"
    using Some by (simp add: serialize_def)
  finally show ?thesis .
qed

theorem serialize_hydrate_serialize_witness:
  "serialize (createTreeMap (serialize ex_registry)
      :: (string, (string, string, string, nat) UseQueryEntry) TreeMapNode) =
   [Serialized ''a'' (Some (None, Nullish, Some 0))
      (Some [Serialized ''b'' (Some (None, Nullish, Some 0)) None])]"
proof -
  have wf: "wf_node ex_registry"
    by (simp add: ex_registry_def ex_ensured_def ex_options_def ensureEntry_def get_value_def
        createQueryEntry_def Let_def)
  have s: "serialize ex_registry =
     [Serialized ''a'' (Some (None, Nullish, Some 0))
        (Some [Serialized ''b'' (Some (None, Nullish, Some 0)) None])]"
    by (simp add: ex_registry_def ex_ensured_def ex_options_def ensureEntry_def get_value_def
        createQueryEntry_def Let_def serialize_def queryEntry_toJSON_def)
  from serialize_hydrate_serialize [OF wf] s show ?thesis by simp
qed

text \<open>The registries that the store builds are of this kind.\<close>

lemma map_set_not_Nil: "map_set m k v \<noteq> []"
  by (cases m) (auto split: if_splits)

lemma map_fst_map_set:
  "map fst (map_set m k v) = (if k \<in> set (map fst m) then map fst m else map fst m @ [k])"
proof (induction m)
  case Nil
  show ?case by simp
next
  case (Cons kc m)
  then show ?case by (cases kc) auto
qed

lemma distinct_map_set: "distinct (map fst m) \<Longrightarrow> distinct (map fst (map_set m k v))"
  by (simp add: map_fst_map_set)

lemma list_all_map_set:
  "list_all P m \<Longrightarrow> P (k, v) \<Longrightarrow> list_all P (map_set m k v)"
  by (induction m) auto

lemma wf_node_map_of:
  "list_all (\<lambda>kc. wf_node (snd kc)) m \<Longrightarrow> map_of m k = Some child \<Longrightarrow> wf_node child"
  by (induction m) (auto split: if_splits)

lemma wf_node_set_value: "wf_node node \<Longrightarrow> wf_node (set_value node ks v)"
proof (induction ks arbitrary: node)
  case Nil
  then show ?case by (cases node) simp
next
  case (Cons k ks)
  obtain nv cs where node: "node = TreeMapNode nv cs" by (cases node)
  let ?m = "case cs of None \<Rightarrow> [] | Some m \<Rightarrow> m"
  let ?child = "case map_of ?m k of None \<Rightarrow> TreeMapNode None None | Some c \<Rightarrow> c"
  from Cons.prems node have m: "distinct (map fst ?m)" "list_all (\<lambda>kc. wf_node (snd kc)) ?m"
    by (auto split: option.splits)
  have "wf_node ?child"
    using m(2) by (auto split: option.splits dest: wf_node_map_of)
  then have "wf_node (set_value ?child ks v)" by (rule Cons.IH)
  with m node show ?case
    by (simp add: Let_def map_set_not_Nil distinct_map_set list_all_map_set)
qed

lemma wf_node_ensureEntry:
  "wf_node registry \<Longrightarrow> wf_node (snd (ensureEntry stringify keyRaw opts registry))"
  by (auto simp add: ensureEntry_def Let_def wf_node_set_value split: option.splits)

lemma wf_node_setEntryData:
  "wf_node registry \<Longrightarrow> wf_node (setEntryData stringify keyRaw arg registry)"
  by (auto simp add: setEntryData_def Let_def wf_node_set_value split: option.splits)


end
